theory Spec2Isabelle
  imports Main "HOL-Library.Sublist"
begin

section \<open>Data model\<close>

text \<open>
  Modelled from the spec: the \<^verbatim>\<open>Step\<close> type (\<^verbatim>\<open>src/types/Step\<close> is imported by
  \<^verbatim>\<open>ExerciseCircle.tsx\<close> but is not among the sources). The spec gives it as
  \<^verbatim>\<open>{ id: enum{inhale, afterInhale, exhale, afterExhale}, duration, skipped, showDots, label }\<close>.
  The field \<^verbatim>\<open>id\<close> is called \<open>id_step\<close> here, since \<open>id\<close> is HOL's identity function.
  Durations are millisecond counts, kept as \<open>int\<close> because the code subtracts them.
\<close>

datatype StepId = inhale | afterInhale | exhale | afterExhale

record Step =
  id_step :: StepId
  duration :: int
  skipped :: bool
  showDots :: bool
  label :: string

text \<open>
  What a JavaScript property access on a missing value raises
  (\<^verbatim>\<open>undefined.label\<close>, \<^verbatim>\<open>undefined.id\<close>, \<^verbatim>\<open>null()\<close>).
\<close>

datatype error = TypeError

text \<open>
  \<^verbatim>\<open>xs[i]\<close> on a JavaScript array: the element, or \<^verbatim>\<open>undefined\<close> (here \<open>None\<close>)
  when the index is not below the length.
\<close>

definition array_get :: "'a list \<Rightarrow> nat \<Rightarrow> 'a option" where
  "array_get xs i = (if i < length xs then Some (xs ! i) else None)"

text \<open>
  \<^verbatim>\<open>xs.filter(p)\<close>: \<^verbatim>\<open>Array.prototype.filter\<close> builds a new array of the elements
  on which \<^verbatim>\<open>p\<close> is true, in order, and does not write to its receiver. The model returns
  the receiver as it is after the call, paired with the new array.
\<close>

definition array_filter :: "('a \<Rightarrow> bool) \<Rightarrow> 'a list \<Rightarrow> 'a list \<times> 'a list" where
  "array_filter p xs = (xs, filter p xs)"

section \<open>ExerciseCircle: derived values and rendering\<close>

text \<open>
  \<^verbatim>\<open>const activeSteps = steps.filter((x) => !x.skipped);\<close>
\<close>

definition activeSteps :: "Step list \<Rightarrow> Step list" where
  "activeSteps steps = snd (array_filter (\<lambda>x. \<not> skipped x) steps)"

text \<open>
  The spec's wording of the same sequence, "Steps with \<^verbatim>\<open>skipped == true\<close> entries
  removed", written as its own recursion to be compared with the code's filter.
\<close>

fun remove_skipped :: "Step list \<Rightarrow> Step list" where
  "remove_skipped [] = []"
| "remove_skipped (x # xs) =
     (if skipped x = True then remove_skipped xs else x # remove_skipped xs)"

text \<open>
  \<^verbatim>\<open>const currentStep = activeSteps[currentStepIndex];\<close>
\<close>

definition currentStep :: "Step list \<Rightarrow> nat \<Rightarrow> Step option" where
  "currentStep steps currentStepIndex = array_get (activeSteps steps) currentStepIndex"

text \<open>
  What the returned JSX reads from \<^verbatim>\<open>currentStep\<close>: the text \<^verbatim>\<open>currentStep.label\<close> and the
  \<^verbatim>\<open>visible\<close>, \<^verbatim>\<open>numberOfDots\<close> and \<^verbatim>\<open>totalDuration\<close> properties of the dots. The first of
  these reads, \<^verbatim>\<open>currentStep.label\<close>, raises when \<^verbatim>\<open>currentStep\<close> is \<^verbatim>\<open>undefined\<close>; nothing
  before it tests \<^verbatim>\<open>currentStep\<close> or the length of \<^verbatim>\<open>activeSteps\<close>.
\<close>

record rendered =
  text_label :: string
  dots_visible :: bool
  dots_numberOfDots :: nat
  dots_totalDuration :: int

definition render :: "Step list \<Rightarrow> nat \<Rightarrow> error + rendered" where
  "render steps currentStepIndex =
     (case currentStep steps currentStepIndex of
        None \<Rightarrow> Inl TypeError
      | Some s \<Rightarrow> Inr \<lparr> text_label = label s, dots_visible = showDots s,
                        dots_numberOfDots = 3, dots_totalDuration = duration s \<rparr>)"

section \<open>ExerciseCircle: the close action\<close>

text \<open>
  The handler given to \<^verbatim>\<open>ButtonAnimator\<close>:
  \<^verbatim>\<open>const isBreathingDone = elapsedTime * 1000 >= minimumElapsedTime; onClosePress(isBreathingDone);\<close>
  The property \<^verbatim>\<open>elapsedTime\<close> counts seconds and \<^verbatim>\<open>minimumElapsedTime\<close> milliseconds; both
  are whole numbers here. The call of the caller's \<^verbatim>\<open>onClosePress\<close> is recorded as the list
  of the arguments it was called with.
\<close>

definition elapsedTimeMs :: "int \<Rightarrow> int" where
  "elapsedTimeMs elapsedTime = elapsedTime * 1000"

definition closePress :: "int \<Rightarrow> int \<Rightarrow> bool list" where
  "closePress elapsedTime minimumElapsedTime =
     (let isBreathingDone = (elapsedTime * 1000 \<ge> minimumElapsedTime)
      in [isBreathingDone])"

section \<open>Animations\<close>

text \<open>
  The four \<^verbatim>\<open>Animated.Value\<close> cells the component creates with \<^verbatim>\<open>useState\<close>.
\<close>

datatype AnimatedValue = showUpAnimVal | scaleAnimVal | textAnimVal | circleMinAnimVal

text \<open>
  A composite animation of React Native's \<^verbatim>\<open>Animated\<close> library, as a term: a timed
  transition of one value to a target, a delay, a parallel group and a sequence.
\<close>

datatype animation =
    Timing AnimatedValue int int
  | Delay int
  | Parallel "animation list"
  | Sequence "animation list"

text \<open>
  Modelled from the spec: \<^verbatim>\<open>animate\<close> (\<^verbatim>\<open>src/utils/animate\<close> is imported but is not among
  the sources). The spec describes it as wrapping one timed animation, "a value transition
  over a duration", given the value, the target and the duration.
\<close>

definition animate :: "AnimatedValue \<Rightarrow> int \<Rightarrow> int \<Rightarrow> animation" where
  "animate v toValue dur = Timing v toValue dur"

text \<open>
  \<^verbatim>\<open>Animated.stagger(time, animations)\<close> is the library's
  \<^verbatim>\<open>parallel(animations.map((a, i) => sequence([delay(time * i), a])))\<close>.
\<close>

definition stagger :: "int \<Rightarrow> animation list \<Rightarrow> animation" where
  "stagger time animations =
     Parallel (map (\<lambda>(i, a). Sequence [Delay (time * int i), a]) (enumerate 0 animations))"

definition fadeInAnimDuration :: int where
  "fadeInAnimDuration = 400"

definition animateStep :: "int \<Rightarrow> int \<Rightarrow> animation" where
  "animateStep toValue dur =
     (let textDuration = fadeInAnimDuration
      in stagger (dur - textDuration)
           [Parallel [animate scaleAnimVal toValue dur,
                      animate textAnimVal 1 textDuration],
            animate textAnimVal 0 textDuration])"

definition showCircleMinAnimation :: animation where
  "showCircleMinAnimation = animate circleMinAnimVal 1 fadeInAnimDuration"

definition hideCircleMinAnimation :: animation where
  "hideCircleMinAnimation = animate circleMinAnimVal 0 fadeInAnimDuration"

definition showUpAnimation :: animation where
  "showUpAnimation = animate showUpAnimVal 1 fadeInAnimDuration"

section \<open>Running an animation\<close>

text \<open>
  How React Native's \<^verbatim>\<open>Animated\<close> runs a composite animation, as a machine that follows the
  library's JavaScript. The library's calls are synchronous and nest, so the machine keeps
  the calls still to be made on a stack; when the stack is empty, time passes until the
  next timer is due. A node of the animation is named by its path, the list of member
  indices that leads to it from the root.
\<close>

definition children :: "animation \<Rightarrow> animation list" where
  "children a = (case a of Parallel as \<Rightarrow> as | Sequence as \<Rightarrow> as | _ \<Rightarrow> [])"

fun node_at :: "animation \<Rightarrow> nat list \<Rightarrow> animation option" where
  "node_at a [] = Some a"
| "node_at a (i # p) =
     (case array_get (children a) i of None \<Rightarrow> None | Some c \<Rightarrow> node_at c p)"

text \<open>
  A transition that has run: its value and target, when it began, when it ended, and
  whether it ended by reaching its end (\<^verbatim>\<open>finished: true\<close>) or by being stopped.
\<close>

record transition =
  tr_value :: AnimatedValue
  tr_toValue :: int
  tr_begin :: int
  tr_end :: int
  tr_finished :: bool

text \<open>A pending timer: the end of a running transition, or the firing of a delay.\<close>

record timer =
  due :: int
  node :: "nat list"
  since :: int

text \<open>
  The calls on the stack: \<^verbatim>\<open>start\<close> and \<^verbatim>\<open>stop\<close> of the node at a path, the completion
  callback given to that node with its \<^verbatim>\<open>finished\<close> flag, \<^verbatim>\<open>stopAnimation\<close> of a value, the
  second half of \<^verbatim>\<open>animate\<close> on a value, and the two halves of one round of the loop in a
  parallel group's \<^verbatim>\<open>stop\<close>.
\<close>

datatype action =
    DoStart "nat list"
  | DoStop "nat list"
  | Callback "nat list" bool
  | StopAnimation AnimatedValue
  | Animate "nat list"
  | StopMember "nat list" nat
  | MarkEnded "nat list" nat

text \<open>
  The state: the time, the stack, the pending timers in the order they were set, the
  transition that currently animates each value (the library's \<^verbatim>\<open>_animation\<close>), the
  \<^verbatim>\<open>doneCount\<close> and \<^verbatim>\<open>hasEnded\<close> of each parallel group, the \<^verbatim>\<open>current\<close> of each sequence,
  the transitions that have ended, and the calls of the callback given to the root.
\<close>

record machine =
  clock :: int
  stack :: "action list"
  timers :: "timer list"
  animating :: "AnimatedValue \<Rightarrow> nat list option"
  doneCount :: "nat list \<Rightarrow> nat"
  hasEnded :: "nat list \<Rightarrow> nat \<Rightarrow> bool"
  current :: "nat list \<Rightarrow> nat"
  ran :: "transition list"
  completed :: "(int \<times> bool) list"

definition push :: "action list \<Rightarrow> machine \<Rightarrow> machine" where
  "push acts m = m\<lparr> stack := acts @ stack m \<rparr>"

definition timer_of :: "nat list \<Rightarrow> machine \<Rightarrow> timer option" where
  "timer_of p m = find (\<lambda>tm. node tm = p) (timers m)"

definition clear_timer :: "nat list \<Rightarrow> machine \<Rightarrow> machine" where
  "clear_timer p m = m\<lparr> timers := filter (\<lambda>tm. node tm \<noteq> p) (timers m) \<rparr>"

text \<open>
  The end of a running transition or pending delay, \<^verbatim>\<open>__debouncedOnEnd({finished})\<close>: its
  timer is gone, a transition no longer animates its value and is recorded, and the
  callback given at its start is called. One that is not running has no end.
\<close>

definition timing_ended :: "animation \<Rightarrow> nat list \<Rightarrow> bool \<Rightarrow> machine \<Rightarrow> machine" where
  "timing_ended a p finished m =
     (case (node_at a p, timer_of p m) of
        (Some (Timing v toValue dur), Some tm) \<Rightarrow>
          push [Callback p finished]
            ((clear_timer p m)\<lparr> animating := (animating m)(v := None),
               ran := ran m @ [\<lparr> tr_value = v, tr_toValue = toValue, tr_begin = since tm,
                                  tr_end = clock m, tr_finished = finished \<rparr>] \<rparr>)
      | (Some (Delay time), Some tm) \<Rightarrow> push [Callback p finished] (clear_timer p m)
      | _ \<Rightarrow> m)"

text \<open>
  \<^verbatim>\<open>value.stopAnimation()\<close>, and the first half of \<^verbatim>\<open>value.animate(animation, callback)\<close>:
  \<^verbatim>\<open>this._animation && this._animation.stop()\<close>. Whatever transition animates the value now
  is stopped and ends with \<^verbatim>\<open>finished: false\<close>.
\<close>

definition stop_value :: "animation \<Rightarrow> AnimatedValue \<Rightarrow> machine \<Rightarrow> machine" where
  "stop_value a v m =
     (case animating m v of None \<Rightarrow> m | Some p \<Rightarrow> timing_ended a p False m)"

text \<open>
  The second half of \<^verbatim>\<open>value.animate\<close>: \<^verbatim>\<open>this._animation = animation; animation.start(...)\<close>.
  The transition reaches its end after its duration.
\<close>

definition animate_value :: "animation \<Rightarrow> nat list \<Rightarrow> machine \<Rightarrow> machine" where
  "animate_value a p m =
     (case node_at a p of
        Some (Timing v toValue dur) \<Rightarrow>
          m\<lparr> animating := (animating m)(v := Some p),
             timers := timers m @ [\<lparr> due = clock m + max 0 dur, node = p, since = clock m \<rparr>] \<rparr>
      | _ \<Rightarrow> m)"

text \<open>
  \<^verbatim>\<open>start(callback)\<close> of a node.
  \<^item> A timing calls \<^verbatim>\<open>value.animate\<close>, which stops what animates the value and then runs.
  \<^item> \<^verbatim>\<open>Animated.delay(time)\<close> is a timing of duration 0 on a value of its own with the
    option \<^verbatim>\<open>delay: time\<close>: \<^verbatim>\<open>if (this._delay) setTimeout(start, this._delay) else start()\<close>,
    and with duration 0 \<^verbatim>\<open>start\<close> ends the timing at once. So a delay of 0 completes within
    the call, and any other waits for its timer (one set with a negative time is due at
    once).
  \<^item> A parallel group: \<^verbatim>\<open>if (doneCount === animations.length) callback({finished: true})\<close>,
    else it starts every member in order.
  \<^item> A sequence: with no members it calls back at once, else it starts
    \<^verbatim>\<open>animations[current]\<close>.
\<close>

definition start_node :: "animation \<Rightarrow> nat list \<Rightarrow> machine \<Rightarrow> machine" where
  "start_node a p m =
     (case node_at a p of
        Some (Timing v toValue dur) \<Rightarrow> push [StopAnimation v, Animate p] m
      | Some (Delay time) \<Rightarrow>
          (if time = 0 then push [Callback p True] m
           else m\<lparr> timers := timers m @
                  [\<lparr> due = clock m + max 0 time, node = p, since = clock m \<rparr>] \<rparr>)
      | Some (Parallel as) \<Rightarrow>
          (if doneCount m p = length as then push [Callback p True] m
           else push (map (\<lambda>i. DoStart (p @ [i])) [0..<length as]) m)
      | Some (Sequence as) \<Rightarrow>
          (if length as = 0 then push [Callback p True] m
           else push [DoStart (p @ [current m p])] m)
      | None \<Rightarrow> m)"

text \<open>
  \<^verbatim>\<open>stop()\<close> of a node. A timing calls \<^verbatim>\<open>value.stopAnimation()\<close>; a delay stops its own
  pending timing; a parallel group runs
  \<^verbatim>\<open>animations.forEach((animation, idx) => { !hasEnded[idx] && animation.stop(); hasEnded[idx] = true; })\<close>;
  a sequence runs \<^verbatim>\<open>if (current < animations.length) animations[current].stop()\<close>.
\<close>

definition stop_node :: "animation \<Rightarrow> nat list \<Rightarrow> machine \<Rightarrow> machine" where
  "stop_node a p m =
     (case node_at a p of
        Some (Timing v toValue dur) \<Rightarrow> push [StopAnimation v] m
      | Some (Delay time) \<Rightarrow> timing_ended a p False m
      | Some (Parallel as) \<Rightarrow> push (map (StopMember p) [0..<length as]) m
      | Some (Sequence as) \<Rightarrow>
          (if current m p < length as then push [DoStop (p @ [current m p])] m else m)
      | None \<Rightarrow> m)"

definition mark_ended :: "nat list \<Rightarrow> nat \<Rightarrow> machine \<Rightarrow> machine" where
  "mark_ended p i m = m\<lparr> hasEnded := (hasEnded m)(p := (hasEnded m p)(i := True)) \<rparr>"

definition stop_member :: "nat list \<Rightarrow> nat \<Rightarrow> machine \<Rightarrow> machine" where
  "stop_member p i m =
     (if \<not> hasEnded m p i then push [DoStop (p @ [i]), MarkEnded p i] m
      else push [MarkEnded p i] m)"

text \<open>
  The completion callback a node was started with, called with \<^verbatim>\<open>{finished}\<close>.
  \<^item> The root's is the caller's: the call is recorded.
  \<^item> A member of a parallel group was given
    \<^verbatim>\<open>hasEnded[idx] = true; doneCount++; if (doneCount === animations.length) { doneCount = 0; callback(endResult); return; } if (!endResult.finished && stopTogether) result.stop();\<close>
    and \<^verbatim>\<open>stopTogether\<close> is true unless the group is configured otherwise, which
    \<^verbatim>\<open>Animated.stagger\<close> and the component do not do.
  \<^item> A member of a sequence was given
    \<^verbatim>\<open>if (!result.finished) { callback(result); return; } current++; if (current === animations.length) { current = 0; callback(result); return; } animations[current].start(onComplete);\<close>
\<close>

definition run_callback :: "animation \<Rightarrow> nat list \<Rightarrow> bool \<Rightarrow> machine \<Rightarrow> machine" where
  "run_callback a p finished m =
     (if p = [] then m\<lparr> completed := completed m @ [(clock m, finished)] \<rparr>
      else
        (let q = butlast p; idx = last p in
         case node_at a q of
           Some (Parallel as) \<Rightarrow>
             (let m' = (mark_ended q idx m)\<lparr> doneCount := (doneCount m)(q := doneCount m q + 1) \<rparr>
              in if doneCount m' q = length as
                 then push [Callback q finished] (m'\<lparr> doneCount := (doneCount m')(q := 0) \<rparr>)
                 else if \<not> finished then push [DoStop q] m'
                 else m')
         | Some (Sequence as) \<Rightarrow>
             (if \<not> finished then push [Callback q finished] m
              else
                (let m' = m\<lparr> current := (current m)(q := current m q + 1) \<rparr>
                 in if current m' q = length as
                    then push [Callback q finished] (m'\<lparr> current := (current m')(q := 0) \<rparr>)
                    else push [DoStart (q @ [current m' q])] m'))
         | _ \<Rightarrow> m))"

definition exec :: "animation \<Rightarrow> action \<Rightarrow> machine \<Rightarrow> machine" where
  "exec a act m =
     (case act of
        DoStart p \<Rightarrow> start_node a p m
      | DoStop p \<Rightarrow> stop_node a p m
      | Callback p finished \<Rightarrow> run_callback a p finished m
      | StopAnimation v \<Rightarrow> stop_value a v m
      | Animate p \<Rightarrow> animate_value a p m
      | StopMember p i \<Rightarrow> stop_member p i m
      | MarkEnded p i \<Rightarrow> mark_ended p i m)"

text \<open>
  The timer that is due first; of those due at the same time, the one set first. So a
  transition that ends at the time at which a delay fires has ended when the delay fires.
\<close>

fun earliest :: "timer list \<Rightarrow> timer option" where
  "earliest [] = None"
| "earliest (tm # tms) =
     (case earliest tms of
        None \<Rightarrow> Some tm
      | Some tm' \<Rightarrow> if due tm \<le> due tm' then Some tm else Some tm')"

text \<open>
  One step: the call on top of the stack is made; with an empty stack, time moves to the
  timer due first, whose transition or delay ends with \<^verbatim>\<open>finished: true\<close>.
\<close>

definition machine_step :: "animation \<Rightarrow> machine \<Rightarrow> machine" where
  "machine_step a m =
     (case stack m of
        act # rest \<Rightarrow> exec a act (m\<lparr> stack := rest \<rparr>)
      | [] \<Rightarrow>
          (case earliest (timers m) of
             None \<Rightarrow> m
           | Some tm \<Rightarrow> timing_ended a (node tm) True (m\<lparr> clock := max (clock m) (due tm) \<rparr>)))"

definition halted :: "machine \<Rightarrow> bool" where
  "halted m = (stack m = [] \<and> timers m = [])"

text \<open>
  The machine is run until nothing is left to call and no timer is pending, for at most
  \<open>fuel\<close> steps: \<open>None\<close> means that it was still running after that many.
\<close>

fun run_machine :: "nat \<Rightarrow> animation \<Rightarrow> machine \<Rightarrow> machine option" where
  "run_machine 0 a m = (if halted m then Some m else None)"
| "run_machine (Suc n) a m = (if halted m then Some m else run_machine n a (machine_step a m))"

definition initial_machine :: "int \<Rightarrow> machine" where
  "initial_machine t =
     \<lparr> clock = t, stack = [DoStart []], timers = [], animating = (\<lambda>v. None),
       doneCount = (\<lambda>p. 0), hasEnded = (\<lambda>p i. False), current = (\<lambda>p. 0),
       ran = [], completed = [] \<rparr>"

text \<open>
  \<open>play fuel t a\<close>: the animation \<open>a\<close> is started at time \<open>t\<close> with nothing else animating
  its values, and left alone. The result is the transitions that ran, in the order in
  which they ended, and the calls of the completion callback, each with its time and flag.
\<close>

definition play ::
  "nat \<Rightarrow> int \<Rightarrow> animation \<Rightarrow> (transition list \<times> (int \<times> bool) list) option" where
  "play fuel t a = map_option (\<lambda>m. (ran m, completed m)) (run_machine fuel a (initial_machine t))"

section \<open>ExerciseCircle: the side effects of a step\<close>

text \<open>
  What the component does to the outside, in the order it does it: the state setter
  \<^verbatim>\<open>setCurrentStepIndex\<close>, \<^verbatim>\<open>playSound\<close> with a cue, and \<^verbatim>\<open>start\<close> and \<^verbatim>\<open>stop\<close> on an
  animation.
\<close>

datatype Sound = lauraBreatheOut | lauraBreatheIn | lauraHold

datatype effect =
    SetCurrentStepIndex nat
  | PlaySound Sound
  | Start animation
  | Stop animation

definition is_sound :: "effect \<Rightarrow> bool" where
  "is_sound e = (case e of PlaySound c \<Rightarrow> True | _ \<Rightarrow> False)"

text \<open>
  \<^verbatim>\<open>onStepStart\<close>. The result is the effects performed and, when \<^verbatim>\<open>step\<close> is \<^verbatim>\<open>undefined\<close>,
  the \<^verbatim>\<open>TypeError\<close> that the read \<^verbatim>\<open>step.id\<close> raises after \<^verbatim>\<open>setCurrentStepIndex\<close> has run.
\<close>

definition onStepStart :: "Step list \<Rightarrow> nat \<Rightarrow> effect list \<times> error option" where
  "onStepStart steps stepIndex =
     (case array_get (activeSteps steps) stepIndex of
        None \<Rightarrow> ([SetCurrentStepIndex stepIndex], Some TypeError)
      | Some step \<Rightarrow>
          (SetCurrentStepIndex stepIndex #
             (if id_step step = exhale then
                [PlaySound lauraBreatheOut, Start showCircleMinAnimation]
              else if id_step step = inhale then
                [PlaySound lauraBreatheIn, Start hideCircleMinAnimation]
              else if id_step step = afterExhale then
                [PlaySound lauraHold, Start hideCircleMinAnimation]
              else if id_step step = afterInhale then
                [PlaySound lauraHold]
              else []),
           None))"

text \<open>
  \<^verbatim>\<open>createStepAnimations\<close> of \<^verbatim>\<open>startAnimationSteps\<close>: one animation per active step, growing
  the circle (target 1) for \<^verbatim>\<open>inhale\<close> and \<^verbatim>\<open>afterInhale\<close> and shrinking it (target 0) otherwise.
\<close>

definition createStepAnimations :: "Step list \<Rightarrow> animation list" where
  "createStepAnimations steps =
     map (\<lambda>x. animateStep (if id_step x = inhale \<or> id_step x = afterInhale then 1 else 0)
                          (duration x))
         (activeSteps steps)"

section \<open>The step sequencer\<close>

text \<open>
  Modelled from the spec: \<^verbatim>\<open>loopAnimations\<close> (\<^verbatim>\<open>src/utils/loopAnimations\<close> is imported by
  \<^verbatim>\<open>ExerciseCircle.tsx\<close> but is not among the sources). The spec gives the Step Sequencer as
  a state machine over the \<open>N\<close> active steps: states \<^verbatim>\<open>Idle\<close>, \<^verbatim>\<open>PlayingStep(i)\<close> and
  \<^verbatim>\<open>Stopped\<close>; on \<^verbatim>\<open>start()\<close> from \<^verbatim>\<open>Idle\<close> it invokes \<^verbatim>\<open>onStepStart(0)\<close> and then begins
  the animation of step 0; when the animation of step \<open>i\<close> reports \<^verbatim>\<open>finished=true\<close> it
  invokes \<^verbatim>\<open>onStepStart((i+1) mod N)\<close> and then begins that step's animation; on \<^verbatim>\<open>stop()\<close>
  it stops the animation in flight and goes to \<^verbatim>\<open>Stopped\<close>. The spec lists no other
  transition, so every other pair of state and event leaves the state as it is and does
  nothing; in particular a completion with \<^verbatim>\<open>finished=false\<close> advances nothing, and
  \<^verbatim>\<open>Stopped\<close> ignores late completions. The spec requires \<open>N > 0\<close>.

  The outputs are the calls the sequencer makes, in order: the callback \<^verbatim>\<open>onStepStart(i)\<close>,
  \<^verbatim>\<open>start\<close> on the animation of step \<open>i\<close>, and \<^verbatim>\<open>stop\<close> on it.
\<close>

datatype SequencerState = Idle | PlayingStep nat | Stopped

datatype SequencerEvent = StartLoop | Complete bool | StopLoop

datatype SequencerOutput = OnStepStart nat | Begin nat | Halt nat

fun sequencer ::
  "nat \<Rightarrow> SequencerState \<Rightarrow> SequencerEvent \<Rightarrow> SequencerState \<times> SequencerOutput list" where
  "sequencer N Idle StartLoop = (PlayingStep 0, [OnStepStart 0, Begin 0])"
| "sequencer N (PlayingStep i) (Complete finished) =
     (if finished
      then (PlayingStep ((i + 1) mod N), [OnStepStart ((i + 1) mod N), Begin ((i + 1) mod N)])
      else (PlayingStep i, []))"
| "sequencer N (PlayingStep i) StopLoop = (Stopped, [Halt i])"
| "sequencer N s e = (s, [])"

fun run_sequencer ::
  "nat \<Rightarrow> SequencerState \<Rightarrow> SequencerEvent list \<Rightarrow> SequencerState \<times> SequencerOutput list" where
  "run_sequencer N s [] = (s, [])"
| "run_sequencer N s (e # es) =
     (case sequencer N s e of
        (s', out) \<Rightarrow> (case run_sequencer N s' es of (s'', out') \<Rightarrow> (s'', out @ out')))"

text \<open>The indices with which \<^verbatim>\<open>onStepStart\<close> was invoked, in order.\<close>

fun stepStarts :: "SequencerOutput list \<Rightarrow> nat list" where
  "stepStarts [] = []"
| "stepStarts (OnStepStart i # out) = i # stepStarts out"
| "stepStarts (Begin i # out) = stepStarts out"
| "stepStarts (Halt i # out) = stepStarts out"

section \<open>ExerciseCircle: lifecycle\<close>

text \<open>
  The calls of the sequencer as the component wires them: \<^verbatim>\<open>onStepStart\<close> is the
  component's own function, and the animations are those of \<^verbatim>\<open>createStepAnimations\<close>.
  An exception ends the list of effects where it is raised.
\<close>

definition perform1 :: "Step list \<Rightarrow> SequencerOutput \<Rightarrow> effect list \<times> error option" where
  "perform1 steps out =
     (case out of
        OnStepStart i \<Rightarrow> onStepStart steps i
      | Begin i \<Rightarrow>
          (case array_get (createStepAnimations steps) i of
             None \<Rightarrow> ([], Some TypeError)
           | Some a \<Rightarrow> ([Start a], None))
      | Halt i \<Rightarrow>
          (case array_get (createStepAnimations steps) i of
             None \<Rightarrow> ([], Some TypeError)
           | Some a \<Rightarrow> ([Stop a], None)))"

fun perform :: "Step list \<Rightarrow> SequencerOutput list \<Rightarrow> effect list \<times> error option" where
  "perform steps [] = ([], None)"
| "perform steps (out # outs) =
     (case perform1 steps out of
        (es, Some e) \<Rightarrow> (es, Some e)
      | (es, None) \<Rightarrow> (case perform steps outs of (es', r) \<Rightarrow> (es @ es', r)))"

text \<open>
  \<^verbatim>\<open>startAnimationSteps\<close>: \<^verbatim>\<open>loopAnimations(createStepAnimations, onStepStart)\<close> starts a
  sequencer over the step animations and returns its \<^verbatim>\<open>stopLoop\<close>.
\<close>

definition startAnimationSteps :: "Step list \<Rightarrow> SequencerState \<times> effect list \<times> error option" where
  "startAnimationSteps steps =
     (case sequencer (length (createStepAnimations steps)) Idle StartLoop of
        (s, out) \<Rightarrow> (s, perform steps out))"

text \<open>
  Modelled from the spec: \<^verbatim>\<open>useOnMount\<close> (\<^verbatim>\<open>src/hooks/useOnMount\<close> is imported by
  \<^verbatim>\<open>ExerciseCircle.tsx\<close> but is not among the sources). The spec gives the lifecycle
  boundary as "start on mount, full teardown on unmount": the hook runs its argument once
  when the component is mounted, and the function that argument returns when the component
  is unmounted. The state of the closure given to it is whether \<^verbatim>\<open>cleanUpAnimationsSteps\<close>
  has been assigned, and the sequencer that it stops.
\<close>

record Orchestrator =
  cleanUpAnimationsSteps :: bool
  loop :: SequencerState

definition mount :: "Orchestrator \<times> effect list" where
  "mount = (\<lparr> cleanUpAnimationsSteps = False, loop = Idle \<rparr>, [Start showUpAnimation])"

text \<open>
  The completion callback given to \<^verbatim>\<open>showUpAnimation.start\<close>:
  \<^verbatim>\<open>({ finished }) => { if (finished) { cleanUpAnimationsSteps = startAnimationSteps(); } }\<close>.
  When \<^verbatim>\<open>startAnimationSteps\<close> raises, the assignment does not happen.
\<close>

definition showUpCallback ::
  "Step list \<Rightarrow> bool \<Rightarrow> Orchestrator \<Rightarrow> Orchestrator \<times> effect list \<times> error option" where
  "showUpCallback steps finished st =
     (if finished then
        (case startAnimationSteps steps of
           (s, es, None) \<Rightarrow> (st\<lparr> cleanUpAnimationsSteps := True, loop := s \<rparr>, es, None)
         | (s, es, Some e) \<Rightarrow> (st, es, Some e))
      else (st, [], None))"

text \<open>The completion of the step animation in flight, delivered to the sequencer.\<close>

definition stepCallback ::
  "Step list \<Rightarrow> bool \<Rightarrow> Orchestrator \<Rightarrow> Orchestrator \<times> effect list \<times> error option" where
  "stepCallback steps finished st =
     (case sequencer (length (createStepAnimations steps)) (loop st) (Complete finished) of
        (s, out) \<Rightarrow> (case perform steps out of (es, r) \<Rightarrow> (st\<lparr> loop := s \<rparr>, es, r)))"

text \<open>
  The function returned to \<^verbatim>\<open>useOnMount\<close>:
  \<^verbatim>\<open>cleanUpAnimationsSteps && cleanUpAnimationsSteps(); showUpAnimation.stop();
  showCircleMinAnimation.stop(); hideCircleMinAnimation.stop();\<close>
\<close>

definition unmount ::
  "Step list \<Rightarrow> Orchestrator \<Rightarrow> Orchestrator \<times> effect list \<times> error option" where
  "unmount steps st =
     (case (if cleanUpAnimationsSteps st
            then (case sequencer (length (createStepAnimations steps)) (loop st) StopLoop of
                    (s, out) \<Rightarrow> (case perform steps out of (es, r) \<Rightarrow> (st\<lparr> loop := s \<rparr>, es, r)))
            else (st, [], None)) of
        (st', es, Some e) \<Rightarrow> (st', es, Some e)
      | (st', es, None) \<Rightarrow>
          (st', es @ [Stop showUpAnimation, Stop showCircleMinAnimation,
                      Stop hideCircleMinAnimation], None))"

text \<open>
  What can happen to a mounted component: the entrance animation completes, the step
  animation in flight completes, or the component is unmounted. An exception ends the run.
\<close>

datatype LifecycleEvent = ShowUpComplete bool | StepComplete bool | Unmount

definition lifecycle ::
  "Step list \<Rightarrow> Orchestrator \<Rightarrow> LifecycleEvent \<Rightarrow> Orchestrator \<times> effect list \<times> error option" where
  "lifecycle steps st ev =
     (case ev of
        ShowUpComplete finished \<Rightarrow> showUpCallback steps finished st
      | StepComplete finished \<Rightarrow> stepCallback steps finished st
      | Unmount \<Rightarrow> unmount steps st)"

fun run_lifecycle ::
  "Step list \<Rightarrow> Orchestrator \<Rightarrow> LifecycleEvent list \<Rightarrow> Orchestrator \<times> effect list \<times> error option" where
  "run_lifecycle steps st [] = (st, [], None)"
| "run_lifecycle steps st (ev # evs) =
     (case lifecycle steps st ev of
        (st', es, Some e) \<Rightarrow> (st', es, Some e)
      | (st', es, None) \<Rightarrow>
          (case run_lifecycle steps st' evs of (st'', es', r) \<Rightarrow> (st'', es @ es', r)))"

text \<open>
  The sequencer's current index stays below the number of active steps: the invariant
  \<^verbatim>\<open>currentStepIndex in [0, len(activeSteps))\<close> of the spec's \<^verbatim>\<open>SequencerState\<close>.
\<close>

definition loop_in_range :: "Step list \<Rightarrow> Orchestrator \<Rightarrow> bool" where
  "loop_in_range steps st =
     (case loop st of PlayingStep i \<Rightarrow> i < length (activeSteps steps) | _ \<Rightarrow> True)"

section \<open>The ticker: useInterval\<close>

text \<open>
  The hook's state across renders: the cell \<^verbatim>\<open>callbackRef.current\<close> (\<^verbatim>\<open>null\<close> is \<open>None\<close>), the
  value of \<^verbatim>\<open>interval\<close> at the last run of the second effect (its dependency list), the
  \<^verbatim>\<open>id\<close> held by that effect's pending cleanup, the next timer id the platform will hand out,
  and the calls made to \<^verbatim>\<open>setInterval\<close> and \<^verbatim>\<open>clearInterval\<close> so far. Callbacks are values
  of any type \<open>'cb\<close>; invoking one is recorded by listing it.
\<close>

datatype TimerCall = SetInterval nat int | ClearInterval nat

record 'cb IntervalHook =
  callbackRef :: "'cb option"
  lastInterval :: "int option"
  intervalId :: "nat option"
  nextId :: nat
  timerCalls :: "TimerCall list"

definition initialHook :: "'cb IntervalHook" where
  "initialHook = \<lparr> callbackRef = None, lastInterval = None, intervalId = None,
                   nextId = 0, timerCalls = [] \<rparr>"

text \<open>The cleanup of the second effect: \<^verbatim>\<open>() => clearInterval(id)\<close>.\<close>

definition cleanupInterval :: "'cb IntervalHook \<Rightarrow> 'cb IntervalHook" where
  "cleanupInterval h =
     (case intervalId h of
        None \<Rightarrow> h
      | Some i \<Rightarrow> h\<lparr> intervalId := None, timerCalls := timerCalls h @ [ClearInterval i] \<rparr>)"

text \<open>
  The default of the parameter, \<^verbatim>\<open>interval: number = 1000\<close>: an omitted argument
  (\<open>None\<close>) is 1000.
\<close>

definition interval_of :: "int option \<Rightarrow> int" where
  "interval_of interval_arg = (case interval_arg of None \<Rightarrow> 1000 | Some i \<Rightarrow> i)"

text \<open>
  One render of a component that calls \<^verbatim>\<open>useInterval(callback, interval)\<close>, with React's
  rules for \<^verbatim>\<open>useEffect\<close>: after the render, the cleanups of the effects that are to run
  again are run, then the effects in the order of their declaration; an effect without a
  dependency list runs after every render, one with the list \<^verbatim>\<open>[interval]\<close> runs after the
  first render and after each render in which \<^verbatim>\<open>interval\<close> differs from the render before.
\<close>

definition useInterval :: "'cb \<Rightarrow> int option \<Rightarrow> 'cb IntervalHook \<Rightarrow> 'cb IntervalHook" where
  "useInterval callback interval_arg h =
     (let interval = interval_of interval_arg;
          rerun = (lastInterval h \<noteq> Some interval);
          h1 = (if rerun then cleanupInterval h else h);
          h2 = h1\<lparr> callbackRef := Some callback \<rparr>
      in if rerun
         then h2\<lparr> lastInterval := Some interval, intervalId := Some (nextId h2),
                  nextId := nextId h2 + 1,
                  timerCalls := timerCalls h2 @ [SetInterval (nextId h2) interval] \<rparr>
         else h2)"

text \<open>
  A run of renders, each with the callback and the interval argument the component passes
  in that render.
\<close>

definition rerender :: "('cb \<times> int option) list \<Rightarrow> 'cb IntervalHook \<Rightarrow> 'cb IntervalHook" where
  "rerender renders h = foldl (\<lambda>h' (cb, interval_arg). useInterval cb interval_arg h') h renders"

text \<open>
  Invoking the content of the cell: calling \<^verbatim>\<open>null\<close> raises, calling a function runs it.
\<close>

definition call :: "'cb option \<Rightarrow> error + 'cb list" where
  "call f = (case f of None \<Rightarrow> Inl TypeError | Some cb \<Rightarrow> Inr [cb])"

text \<open>
  \<^verbatim>\<open>const tick = () => { callbackRef.current && callbackRef.current(); };\<close>
  The result is the list of the callbacks invoked by this tick, or the exception.
\<close>

definition tick :: "'cb IntervalHook \<Rightarrow> error + 'cb list" where
  "tick h = (if callbackRef h \<noteq> None then call (callbackRef h) else Inr [])"

section \<open>An example session\<close>

text \<open>
  The steps of the spec's end-to-end scenario, \<^verbatim>\<open>inhale\<close> for 4000 ms, \<^verbatim>\<open>afterInhale\<close> for
  1000 ms and \<^verbatim>\<open>exhale\<close> for 4000 ms, followed by a skipped \<^verbatim>\<open>afterExhale\<close>.
\<close>

definition ex_inhale :: Step where
  "ex_inhale = \<lparr> id_step = inhale, duration = 4000, skipped = False,
                 showDots = False, label = ''Inhale'' \<rparr>"

definition ex_afterInhale :: Step where
  "ex_afterInhale = \<lparr> id_step = afterInhale, duration = 1000, skipped = False,
                      showDots = True, label = ''Hold'' \<rparr>"

definition ex_exhale :: Step where
  "ex_exhale = \<lparr> id_step = exhale, duration = 4000, skipped = False,
                 showDots = False, label = ''Exhale'' \<rparr>"

definition ex_afterExhale :: Step where
  "ex_afterExhale = \<lparr> id_step = afterExhale, duration = 0, skipped = True,
                      showDots = True, label = ''Hold'' \<rparr>"

definition ex_steps :: "Step list" where
  "ex_steps = [ex_inhale, ex_afterInhale, ex_exhale, ex_afterExhale]"

lemmas ex_defs = ex_steps_def ex_inhale_def ex_afterInhale_def ex_exhale_def ex_afterExhale_def

section \<open>Properties of the derived step list\<close>

lemma activeSteps_filter: "activeSteps steps = filter (\<lambda>x. \<not> skipped x) steps"
  by (simp add: activeSteps_def array_filter_def)

lemma remove_skipped_filter: "remove_skipped steps = filter (\<lambda>x. \<not> skipped x) steps"
  by (induction steps) simp_all

lemma activeSteps_empty_iff: "(activeSteps steps = []) = (\<forall>x\<in>set steps. skipped x)"
  by (simp add: activeSteps_filter filter_empty_conv)

lemma length_createStepAnimations:
  "length (createStepAnimations steps) = length (activeSteps steps)"
  by (simp add: createStepAnimations_def)

lemma subseq_filter_mono:
  "subseq ys xs \<Longrightarrow> \<forall>y\<in>set ys. p y \<Longrightarrow> subseq ys (filter p xs)"
proof -
  assume sub: "subseq ys xs" and all: "\<forall>y\<in>set ys. p y"
  from sub have "subseq (filter p ys) (filter p xs)"
    by (rule subseq_filter)
  moreover from all have "filter p ys = ys"
    by simp
  ultimately show ?thesis
    by simp
qed

text \<open>
  C8. The derived sequence \<open>activeSteps\<close> is the input list with every entry whose
  \<open>skipped\<close> flag is true removed: it equals the list obtained by removing those entries
  one by one, it is a subsequence of the input (so the remaining entries keep their
  relative order), none of its entries is skipped, every subsequence of the input without
  skipped entries is a subsequence of it (so no unskipped entry is lost), and the filter
  call leaves the input list as it was.
\<close>

theorem activeSteps_removes_skipped:
  "activeSteps steps = remove_skipped steps
   \<and> subseq (activeSteps steps) steps
   \<and> (\<forall>x\<in>set (activeSteps steps). \<not> skipped x)
   \<and> (\<forall>ys. subseq ys steps \<and> (\<forall>y\<in>set ys. \<not> skipped y) \<longrightarrow> subseq ys (activeSteps steps))
   \<and> fst (array_filter (\<lambda>x. \<not> skipped x) steps) = steps"
proof (intro conjI allI impI)
  show "activeSteps steps = remove_skipped steps"
    by (simp add: activeSteps_filter remove_skipped_filter)
  show "subseq (activeSteps steps) steps"
    by (simp add: activeSteps_filter)
  show "\<forall>x\<in>set (activeSteps steps). \<not> skipped x"
    by (simp add: activeSteps_filter)
  show "fst (array_filter (\<lambda>x. \<not> skipped x) steps) = steps"
    by (simp add: array_filter_def)
next
  fix ys
  assume "subseq ys steps \<and> (\<forall>y\<in>set ys. \<not> skipped y)"
  then show "subseq ys (activeSteps steps)"
    by (simp add: activeSteps_filter subseq_filter_mono)
qed

theorem activeSteps_removes_skipped_witness:
  "subseq [ex_inhale, ex_exhale] ex_steps
   \<and> \<not> skipped ex_inhale \<and> \<not> skipped ex_exhale
   \<and> subseq [ex_inhale, ex_exhale] (activeSteps ex_steps)
   \<and> activeSteps ex_steps = remove_skipped ex_steps"
proof -
  have h: "subseq [ex_inhale, ex_exhale] ex_steps
           \<and> (\<forall>y\<in>set [ex_inhale, ex_exhale]. \<not> skipped y)"
    by (simp add: ex_defs)
  with activeSteps_removes_skipped [of ex_steps] show ?thesis
    by auto
qed

section \<open>Properties of the sequencer\<close>

lemma stepStarts_append: "stepStarts (xs @ ys) = stepStarts xs @ stepStarts ys"
  by (induction xs rule: stepStarts.induct) simp_all

lemma stepStarts_pairs:
  "stepStarts (concat (map (\<lambda>j. [OnStepStart (f j), Begin (f j)]) js)) = map f js"
  by (induction js) simp_all

lemma run_sequencer_append:
  "run_sequencer N s (xs @ ys) =
     (case run_sequencer N s xs of
        (s', out) \<Rightarrow> (case run_sequencer N s' ys of (s'', out') \<Rightarrow> (s'', out @ out')))"
  by (induction xs arbitrary: s) (simp_all split: prod.splits)

lemma run_sequencer_Stopped: "run_sequencer N Stopped es = (Stopped, [])"
  by (induction es) simp_all

lemma run_sequencer_Idle:
  "StartLoop \<notin> set es \<Longrightarrow> run_sequencer N Idle es = (Idle, [])"
proof (induction es)
  case Nil
  then show ?case by simp
next
  case (Cons e es)
  then show ?case by (cases e) simp_all
qed

text \<open>Every index the sequencer hands to \<^verbatim>\<open>onStepStart\<close> is below \<open>N\<close>.\<close>

lemma sequencer_state_range:
  "0 < N \<Longrightarrow> (\<forall>i. s = PlayingStep i \<longrightarrow> i < N) \<Longrightarrow>
   (\<forall>i. fst (sequencer N s e) = PlayingStep i \<longrightarrow> i < N)
   \<and> (\<forall>i\<in>set (stepStarts (snd (sequencer N s e))). i < N)"
  by (cases "(N, s, e)" rule: sequencer.cases) auto

lemma run_sequencer_range:
  "0 < N \<Longrightarrow> (\<forall>i. s = PlayingStep i \<longrightarrow> i < N) \<Longrightarrow>
   (\<forall>i. fst (run_sequencer N s es) = PlayingStep i \<longrightarrow> i < N)
   \<and> (\<forall>i\<in>set (stepStarts (snd (run_sequencer N s es))). i < N)"
proof (induction es arbitrary: s)
  case Nil
  then show ?case by simp
next
  case (Cons e es)
  obtain s' out where step: "sequencer N s e = (s', out)"
    by (cases "sequencer N s e")
  obtain s'' out' where rest: "run_sequencer N s' es = (s'', out')"
    by (cases "run_sequencer N s' es")
  from sequencer_state_range [OF Cons.prems, of e] step
  have s': "\<forall>i. s' = PlayingStep i \<longrightarrow> i < N" and out: "\<forall>i\<in>set (stepStarts out). i < N"
    by simp_all
  from Cons.IH [OF Cons.prems(1) s'] rest
  have "\<forall>i. s'' = PlayingStep i \<longrightarrow> i < N" and "\<forall>i\<in>set (stepStarts out'). i < N"
    by simp_all
  with out step rest show ?case
    by (auto simp: stepStarts_append)
qed

lemma run_sequencer_completions:
  "0 < N \<Longrightarrow> i < N \<Longrightarrow>
   run_sequencer N (PlayingStep i) (replicate k (Complete True)) =
     (PlayingStep ((i + k) mod N),
      concat (map (\<lambda>j. [OnStepStart ((i + j) mod N), Begin ((i + j) mod N)]) [1..<Suc k]))"
proof (induction k)
  case 0
  then show ?case by simp
next
  case (Suc k)
  have "replicate (Suc k) (Complete True) = replicate k (Complete True) @ [Complete True]"
    by (simp add: replicate_append_same)
  moreover have "Suc ((i + k) mod N) mod N = Suc (i + k) mod N"
    by (simp add: mod_Suc_eq)
  ultimately show ?case
    using Suc by (simp add: run_sequencer_append del: replicate_Suc)
qed

lemma run_sequencer_started:
  "0 < N \<Longrightarrow>
   run_sequencer N Idle (StartLoop # replicate k (Complete True)) =
     (PlayingStep (k mod N),
      concat (map (\<lambda>j. [OnStepStart (j mod N), Begin (j mod N)]) [0..<Suc k]))"
proof -
  assume N: "0 < N"
  have "[0..<Suc k] = 0 # [1..<Suc k]"
    by (simp add: upt_conv_Cons)
  then show ?thesis
    using run_sequencer_completions [OF N N, of k] by simp
qed

text \<open>
  C3. For a sequencer over \<open>N > 0\<close> active steps that is started and whose step animations
  all report \<^verbatim>\<open>finished=true\<close>: after \<open>k\<close> completions the calls of \<^verbatim>\<open>onStepStart\<close> have been
  exactly those with the indices \<open>0 mod N, 1 mod N, ..., k mod N\<close> in this order, each
  followed by the start of that step's animation, so in every round each index is
  visited once, in index order, and index \<open>N - 1\<close> is followed by index 0, for every \<open>k\<close>.
  A completion with \<^verbatim>\<open>finished=true\<close> moves from step \<open>i\<close> to step \<open>(i + 1) mod N\<close>; one with
  \<^verbatim>\<open>finished=false\<close> moves nowhere and calls nothing.
\<close>

theorem sequencer_round_robin:
  "0 < N \<Longrightarrow>
   run_sequencer N Idle (StartLoop # replicate k (Complete True)) =
     (PlayingStep (k mod N),
      concat (map (\<lambda>j. [OnStepStart (j mod N), Begin (j mod N)]) [0..<Suc k]))
   \<and> stepStarts (snd (run_sequencer N Idle (StartLoop # replicate k (Complete True)))) =
       map (\<lambda>j. j mod N) [0..<Suc k]
   \<and> (\<forall>c i. i < N \<and> c * N + i \<le> k \<longrightarrow>
         stepStarts (snd (run_sequencer N Idle (StartLoop # replicate k (Complete True))))
           ! (c * N + i) = i)
   \<and> sequencer N (PlayingStep i) (Complete True) =
       (PlayingStep ((i + 1) mod N), [OnStepStart ((i + 1) mod N), Begin ((i + 1) mod N)])
   \<and> sequencer N (PlayingStep i) (Complete False) = (PlayingStep i, [])"
proof -
  assume N: "0 < N"
  let ?run = "run_sequencer N Idle (StartLoop # replicate k (Complete True))"
  have run: "?run = (PlayingStep (k mod N),
      concat (map (\<lambda>j. [OnStepStart (j mod N), Begin (j mod N)]) [0..<Suc k]))"
    using N by (rule run_sequencer_started)
  have starts: "stepStarts (snd ?run) = map (\<lambda>j. j mod N) [0..<Suc k]"
    unfolding run snd_conv by (rule stepStarts_pairs)
  have nth: "\<forall>c i. i < N \<and> c * N + i \<le> k \<longrightarrow> stepStarts (snd ?run) ! (c * N + i) = i"
  proof (intro allI impI)
    fix c i
    assume h: "i < N \<and> c * N + i \<le> k"
    then have len: "c * N + i < length [0..<Suc k]"
      by simp
    have "stepStarts (snd ?run) ! (c * N + i) = map (\<lambda>j. j mod N) [0..<Suc k] ! (c * N + i)"
      by (simp only: starts)
    also from len have "\<dots> = (c * N + i) mod N"
      by (simp only: nth_map length_upt nth_upt) simp
    also from h have "\<dots> = i"
      by simp
    finally show "stepStarts (snd ?run) ! (c * N + i) = i" .
  qed
  have adv: "sequencer N (PlayingStep i) (Complete True) =
       (PlayingStep ((i + 1) mod N), [OnStepStart ((i + 1) mod N), Begin ((i + 1) mod N)])
     \<and> sequencer N (PlayingStep i) (Complete False) = (PlayingStep i, [])"
    by simp
  from run starts nth adv show ?thesis
    by blast
qed

theorem sequencer_round_robin_witness:
  "(0::nat) < 3
   \<and> stepStarts (snd (run_sequencer 3 Idle (StartLoop # replicate 7 (Complete True)))) =
       [0, 1, 2, 0, 1, 2, 0, 1]
   \<and> fst (run_sequencer 3 Idle (StartLoop # replicate 7 (Complete True))) = PlayingStep 1
   \<and> (2::nat) < 3 \<and> (1 * 3 + 2 :: nat) \<le> 7
   \<and> stepStarts (snd (run_sequencer 3 Idle (StartLoop # replicate 7 (Complete True))))
        ! (1 * 3 + 2) = 2"
proof -
  have h: "(0::nat) < 3"
    by simp
  have u: "[0..<Suc 7] = [0, 1, 2, 3, 4, 5, 6, 7]"
    by (simp add: upt_conv_Cons)
  note t = sequencer_round_robin [OF h, of 7 0]
  from t have a: "stepStarts (snd (run_sequencer 3 Idle (StartLoop # replicate 7 (Complete True)))) =
             map (\<lambda>j. j mod 3) [0..<Suc 7]"
    by blast
  from t have "run_sequencer 3 Idle (StartLoop # replicate 7 (Complete True)) =
      (PlayingStep (7 mod 3),
       concat (map (\<lambda>j. [OnStepStart (j mod 3), Begin (j mod 3)]) [0..<Suc 7]))"
    by blast
  then have b: "fst (run_sequencer 3 Idle (StartLoop # replicate 7 (Complete True))) =
      PlayingStep (7 mod 3)"
    by (simp only: fst_conv)
  have g: "(2::nat) < 3 \<and> (1 * 3 + 2 :: nat) \<le> 7"
    by simp
  with t have c: "stepStarts (snd (run_sequencer 3 Idle (StartLoop # replicate 7 (Complete True))))
        ! (1 * 3 + 2) = 2"
    by blast
  show ?thesis
    unfolding a b c u using g by simp
qed

text \<open>
  C4. Once \<^verbatim>\<open>stop()\<close> has been called on the sequencer, \<^verbatim>\<open>onStepStart\<close> is not invoked again:
  whatever happened before the stop, the completions and further stops that arrive after it
  add no \<^verbatim>\<open>onStepStart\<close> call; and when the stop comes during playback of step \<open>i\<close>, the
  sequencer stops that step's animation, is \<^verbatim>\<open>Stopped\<close>, and every later event, the
  completion in flight with \<^verbatim>\<open>finished=false\<close> or a late one with \<^verbatim>\<open>finished=true\<close>, makes it
  call nothing at all.
\<close>

theorem stop_silences_sequencer:
  "(StartLoop \<notin> set post \<longrightarrow>
      stepStarts (snd (run_sequencer N Idle (pre @ StopLoop # post))) =
        stepStarts (snd (run_sequencer N Idle pre)))
   \<and> (fst (run_sequencer N Idle pre) = PlayingStep i \<longrightarrow>
        run_sequencer N Idle (pre @ StopLoop # post) =
          (Stopped, snd (run_sequencer N Idle pre) @ [Halt i]))
   \<and> run_sequencer N (PlayingStep i) (StopLoop # Complete False # post) = (Stopped, [Halt i])
   \<and> run_sequencer N (PlayingStep i) (StopLoop # Complete True # post) = (Stopped, [Halt i])"
proof (intro conjI impI)
  obtain s out where pre: "run_sequencer N Idle pre = (s, out)"
    by (cases "run_sequencer N Idle pre")
  {
    assume post: "StartLoop \<notin> set post"
    show "stepStarts (snd (run_sequencer N Idle (pre @ StopLoop # post))) =
            stepStarts (snd (run_sequencer N Idle pre))"
    proof (cases s)
      case Idle
      with pre post show ?thesis
        by (simp add: run_sequencer_append run_sequencer_Idle)
    next
      case (PlayingStep j)
      with pre show ?thesis
        by (simp add: run_sequencer_append run_sequencer_Stopped stepStarts_append)
    next
      case Stopped
      with pre show ?thesis
        by (simp add: run_sequencer_append run_sequencer_Stopped)
    qed
  }
  {
    assume "fst (run_sequencer N Idle pre) = PlayingStep i"
    with pre show "run_sequencer N Idle (pre @ StopLoop # post) =
          (Stopped, snd (run_sequencer N Idle pre) @ [Halt i])"
      by (simp add: run_sequencer_append run_sequencer_Stopped)
  }
  show "run_sequencer N (PlayingStep i) (StopLoop # Complete False # post) = (Stopped, [Halt i])"
    by (simp add: run_sequencer_Stopped)
  show "run_sequencer N (PlayingStep i) (StopLoop # Complete True # post) = (Stopped, [Halt i])"
    by (simp add: run_sequencer_Stopped)
qed

theorem stop_silences_sequencer_witness:
  "StartLoop \<notin> set [Complete False, Complete True, StopLoop]
   \<and> fst (run_sequencer 3 Idle [StartLoop, Complete True]) = PlayingStep 1
   \<and> run_sequencer 3 Idle
        ([StartLoop, Complete True] @ StopLoop # [Complete False, Complete True, StopLoop])
       = (Stopped, [OnStepStart 0, Begin 0, OnStepStart 1, Begin 1, Halt 1])
   \<and> stepStarts (snd (run_sequencer 3 Idle
        ([StartLoop, Complete True] @ StopLoop # [Complete False, Complete True, StopLoop])))
       = [0, 1]"
proof -
  have a: "StartLoop \<notin> set [Complete False, Complete True, StopLoop]"
    by simp
  have b: "fst (run_sequencer 3 Idle [StartLoop, Complete True]) = PlayingStep 1"
    by simp
  have c: "snd (run_sequencer 3 Idle [StartLoop, Complete True]) =
           [OnStepStart 0, Begin 0, OnStepStart 1, Begin 1]"
    by simp
  from stop_silences_sequencer
         [of "[Complete False, Complete True, StopLoop]" 3 "[StartLoop, Complete True]" 1] a b
  have "stepStarts (snd (run_sequencer 3 Idle
        ([StartLoop, Complete True] @ StopLoop # [Complete False, Complete True, StopLoop]))) =
        stepStarts (snd (run_sequencer 3 Idle [StartLoop, Complete True]))"
    and "run_sequencer 3 Idle
        ([StartLoop, Complete True] @ StopLoop # [Complete False, Complete True, StopLoop])
       = (Stopped, snd (run_sequencer 3 Idle [StartLoop, Complete True]) @ [Halt 1])"
    by blast+
  with a b c show ?thesis
    by simp
qed

section \<open>Properties of rendering\<close>

text \<open>
  C9. The component does not validate a step list in which every step is skipped: with such
  a list the lookup \<^verbatim>\<open>activeSteps[currentStepIndex]\<close> at the initial index 0 yields no
  element, and rendering, which reads that element's \<^verbatim>\<open>label\<close>, fails. A lookup succeeds
  at some index only if at least one step is not skipped; and if at least one step is not
  skipped, the lookup and the rendering succeed at the initial index 0 and at every index
  the sequencer hands to \<^verbatim>\<open>onStepStart\<close>, which are the values \<^verbatim>\<open>currentStepIndex\<close> takes.
\<close>

theorem all_skipped_render_fails:
  "((\<forall>x\<in>set steps. skipped x)
      \<longrightarrow> currentStep steps 0 = None \<and> render steps 0 = Inl TypeError)
   \<and> ((\<exists>i. currentStep steps i \<noteq> None) \<longrightarrow> (\<exists>x\<in>set steps. \<not> skipped x))
   \<and> ((\<exists>x\<in>set steps. \<not> skipped x)
      \<longrightarrow> currentStep steps 0 \<noteq> None
        \<and> (\<exists>r. render steps 0 = Inr r)
        \<and> (\<forall>es. \<forall>i\<in>set (stepStarts (snd (run_sequencer (length (activeSteps steps)) Idle es))).
              currentStep steps i \<noteq> None \<and> (\<exists>r. render steps i = Inr r)))"
proof (intro conjI impI)
  assume all: "\<forall>x\<in>set steps. skipped x"
  then have "activeSteps steps = []"
    by (simp add: activeSteps_empty_iff)
  then show "currentStep steps 0 = None" and "render steps 0 = Inl TypeError"
    by (simp_all add: render_def currentStep_def array_get_def)
next
  assume "\<exists>i. currentStep steps i \<noteq> None"
  then have "activeSteps steps \<noteq> []"
    by (auto simp: currentStep_def array_get_def)
  then show "\<exists>x\<in>set steps. \<not> skipped x"
    by (simp add: activeSteps_empty_iff)
next
  assume "\<exists>x\<in>set steps. \<not> skipped x"
  then have ne: "0 < length (activeSteps steps)"
    using activeSteps_empty_iff [of steps] by auto
  then show "currentStep steps 0 \<noteq> None" and "\<exists>r. render steps 0 = Inr r"
    by (simp_all add: render_def currentStep_def array_get_def)
  show "\<forall>es. \<forall>i\<in>set (stepStarts (snd (run_sequencer (length (activeSteps steps)) Idle es))).
              currentStep steps i \<noteq> None \<and> (\<exists>r. render steps i = Inr r)"
  proof (intro allI ballI)
    fix es i
    assume "i \<in> set (stepStarts (snd (run_sequencer (length (activeSteps steps)) Idle es)))"
    with run_sequencer_range [OF ne, of Idle es] have "i < length (activeSteps steps)"
      by simp
    then show "currentStep steps i \<noteq> None \<and> (\<exists>r. render steps i = Inr r)"
      by (simp add: render_def currentStep_def array_get_def)
  qed
qed

theorem all_skipped_render_fails_witness:
  "skipped ex_afterExhale
   \<and> currentStep [ex_afterExhale] 0 = None \<and> render [ex_afterExhale] 0 = Inl TypeError
   \<and> \<not> skipped ex_inhale
   \<and> currentStep ex_steps 0 \<noteq> None
   \<and> currentStep ex_steps 1 \<noteq> None"
proof -
  have a: "\<forall>x\<in>set [ex_afterExhale]. skipped x"
    by (simp add: ex_defs)
  have b: "\<exists>x\<in>set ex_steps. \<not> skipped x"
    by (simp add: ex_defs)
  have c: "1 \<in> set (stepStarts (snd (run_sequencer (length (activeSteps ex_steps)) Idle
                                       [StartLoop, Complete True])))"
    by (simp add: ex_defs activeSteps_filter)
  from a all_skipped_render_fails [of "[ex_afterExhale]"]
  have "currentStep [ex_afterExhale] 0 = None \<and> render [ex_afterExhale] 0 = Inl TypeError"
    by blast
  moreover from b c all_skipped_render_fails [of ex_steps]
  have "currentStep ex_steps 0 \<noteq> None \<and> currentStep ex_steps 1 \<noteq> None"
    by blast
  ultimately show ?thesis
    by (simp add: ex_defs)
qed

section \<open>Properties of the close action\<close>

text \<open>
  C1. For every elapsed time and every minimum threshold, the close action calls
  \<^verbatim>\<open>onClosePress\<close> once, with the value of the comparison of the elapsed time in
  milliseconds (the property \<^verbatim>\<open>elapsedTime\<close> times 1000) with the threshold
  \<^verbatim>\<open>minimumElapsedTime\<close>: true when the two are equal, true when the elapsed time is
  larger, false when it is smaller.
\<close>

theorem closePress_reports_comparison:
  "closePress elapsedTime minimumElapsedTime =
     [elapsedTimeMs elapsedTime \<ge> minimumElapsedTime]
   \<and> (elapsedTimeMs elapsedTime = minimumElapsedTime
        \<longrightarrow> closePress elapsedTime minimumElapsedTime = [True])
   \<and> (elapsedTimeMs elapsedTime > minimumElapsedTime
        \<longrightarrow> closePress elapsedTime minimumElapsedTime = [True])
   \<and> (elapsedTimeMs elapsedTime < minimumElapsedTime
        \<longrightarrow> closePress elapsedTime minimumElapsedTime = [False])"
  by (simp add: closePress_def elapsedTimeMs_def)

theorem closePress_reports_comparison_witness:
  "elapsedTimeMs 2 = 2000 \<and> closePress 2 2000 = [True]
   \<and> elapsedTimeMs 3 > 2000 \<and> closePress 3 2000 = [True]
   \<and> elapsedTimeMs 1 < 2000 \<and> closePress 1 2000 = [False]"
  using closePress_reports_comparison [of 2 2000]
        closePress_reports_comparison [of 3 2000]
        closePress_reports_comparison [of 1 2000]
  by (simp add: elapsedTimeMs_def)

section \<open>Properties of the step animation\<close>

lemmas machine_defs =
  machine_step_def exec_def start_node_def stop_node_def run_callback_def stop_value_def
  animate_value_def stop_member_def mark_ended_def timing_ended_def push_def timer_of_def
  clear_timer_def halted_def children_def array_get_def

lemmas animateStep_defs =
  play_def initial_machine_def animateStep_def stagger_def animate_def
  fadeInAnimDuration_def Let_def

lemma run_machine_numeral:
  "run_machine (numeral k) a m =
     (if halted m then Some m else run_machine (pred_numeral k) a (machine_step a m))"
  by (simp add: numeral_eq_Suc)



text \<open>
  A step shorter than twice the fade duration: the fade-out begins, at \<open>t + d - 400\<close>, while
  the fade-in is still running on the same value. The fade-in is stopped, its parallel
  group stops the scale transition, and only the fade-out runs to its end.
\<close>

lemma animateStep_interrupted:
  "400 < d \<Longrightarrow> d < 800 \<Longrightarrow>
   play 60 t (animateStep toValue d) =
     Some ([\<lparr> tr_value = textAnimVal, tr_toValue = 1, tr_begin = t,
              tr_end = t + (d - 400), tr_finished = False \<rparr>,
            \<lparr> tr_value = scaleAnimVal, tr_toValue = toValue, tr_begin = t,
              tr_end = t + (d - 400), tr_finished = False \<rparr>,
            \<lparr> tr_value = textAnimVal, tr_toValue = 0, tr_begin = t + (d - 400),
              tr_end = t + d, tr_finished = True \<rparr>],
           [(t + d, True)])"
  by (simp add: animateStep_defs run_machine_numeral machine_defs)




section \<open>Properties of the side effects of a step\<close>

lemma onStepStart_in_range:
  "i < length (activeSteps steps) \<Longrightarrow>
   snd (onStepStart steps i) = None \<and> SetCurrentStepIndex i \<in> set (fst (onStepStart steps i))"
  by (simp add: onStepStart_def array_get_def)

text \<open>
  C7, as the claim states it, does not hold: it has \<^verbatim>\<open>onStepStart\<close> hide the minimized
  circle on both hold states. On the active step 1 of the example session, an
  \<^verbatim>\<open>afterInhale\<close> step, \<^verbatim>\<open>onStepStart\<close> sets the index and plays the hold cue and does
  nothing else: it does not start the animation that hides the minimized circle.
\<close>

theorem onStepStart_afterInhale_counterexample:
  "id_step ex_afterInhale = afterInhale
   \<and> array_get (activeSteps ex_steps) 1 = Some ex_afterInhale
   \<and> onStepStart ex_steps 1 = ([SetCurrentStepIndex 1, PlaySound lauraHold], None)
   \<and> Start hideCircleMinAnimation \<notin> set (fst (onStepStart ex_steps 1))"
  by (simp add: onStepStart_def activeSteps_filter array_get_def ex_defs)

text \<open>
  C7, amended. For every index \<open>i\<close> of an active step, \<^verbatim>\<open>onStepStart(i)\<close> sets the current
  step index to \<open>i\<close> and plays exactly one sound, chosen by the step's id: the breathe-out
  cue for \<^verbatim>\<open>exhale\<close>, the breathe-in cue for \<^verbatim>\<open>inhale\<close>, and the same hold cue for
  \<^verbatim>\<open>afterInhale\<close> and \<^verbatim>\<open>afterExhale\<close>. It then starts the animation that shows the
  minimized circle on \<^verbatim>\<open>exhale\<close>, starts the animation that hides it on \<^verbatim>\<open>inhale\<close> and on
  \<^verbatim>\<open>afterExhale\<close>, and starts no animation on \<^verbatim>\<open>afterInhale\<close>.
\<close>

theorem onStepStart_effects:
  "stepIndex < length (activeSteps steps) \<Longrightarrow>
   onStepStart steps stepIndex =
     (case id_step (activeSteps steps ! stepIndex) of
        exhale \<Rightarrow> ([SetCurrentStepIndex stepIndex, PlaySound lauraBreatheOut,
                     Start showCircleMinAnimation], None)
      | inhale \<Rightarrow> ([SetCurrentStepIndex stepIndex, PlaySound lauraBreatheIn,
                     Start hideCircleMinAnimation], None)
      | afterExhale \<Rightarrow> ([SetCurrentStepIndex stepIndex, PlaySound lauraHold,
                          Start hideCircleMinAnimation], None)
      | afterInhale \<Rightarrow> ([SetCurrentStepIndex stepIndex, PlaySound lauraHold], None))
   \<and> length (filter is_sound (fst (onStepStart steps stepIndex))) = 1"
  by (cases "id_step (activeSteps steps ! stepIndex)")
     (simp_all add: onStepStart_def array_get_def is_sound_def)

theorem onStepStart_effects_witness:
  "(2::nat) < length (activeSteps ex_steps)
   \<and> onStepStart ex_steps 2 =
       ([SetCurrentStepIndex 2, PlaySound lauraBreatheOut, Start showCircleMinAnimation], None)
   \<and> onStepStart ex_steps 0 =
       ([SetCurrentStepIndex 0, PlaySound lauraBreatheIn, Start hideCircleMinAnimation], None)"
proof -
  have a: "(2::nat) < length (activeSteps ex_steps)"
    and b: "(0::nat) < length (activeSteps ex_steps)"
    by (simp_all add: activeSteps_filter ex_defs)
  have c: "id_step (activeSteps ex_steps ! 2) = exhale"
    "id_step (activeSteps ex_steps ! 0) = inhale"
    by (simp_all add: activeSteps_filter ex_defs)
  from onStepStart_effects [OF a] onStepStart_effects [OF b] a c show ?thesis
    by simp
qed

section \<open>Properties of the lifecycle\<close>

lemma perform_step:
  "i < length (activeSteps steps) \<Longrightarrow>
   perform steps [OnStepStart i, Begin i] =
     (fst (onStepStart steps i) @ [Start (createStepAnimations steps ! i)], None)"
  using onStepStart_in_range [of i steps]
  by (cases "onStepStart steps i")
     (simp add: perform1_def array_get_def length_createStepAnimations)

lemma perform_halt:
  "i < length (activeSteps steps) \<Longrightarrow>
   perform steps [Halt i] = ([Stop (createStepAnimations steps ! i)], None)"
  by (simp add: perform1_def array_get_def length_createStepAnimations)

lemma startAnimationSteps_ok:
  "activeSteps steps \<noteq> [] \<Longrightarrow>
   startAnimationSteps steps =
     (PlayingStep 0, fst (onStepStart steps 0) @ [Start (createStepAnimations steps ! 0)], None)"
  using perform_step [of 0 steps] by (simp add: startAnimationSteps_def)

lemma showUpCallback_ok:
  assumes "activeSteps steps \<noteq> []" and "loop_in_range steps st"
  shows "\<exists>st' es. showUpCallback steps finished st = (st', es, None)
           \<and> loop_in_range steps st'
           \<and> (loop st \<noteq> Idle \<longrightarrow> loop st' \<noteq> Idle)
           \<and> (finished \<longrightarrow> loop st' = PlayingStep 0 \<and> cleanUpAnimationsSteps st'
                 \<and> SetCurrentStepIndex 0 \<in> set es)"
  using assms onStepStart_in_range [of 0 steps]
  by (simp add: showUpCallback_def startAnimationSteps_ok loop_in_range_def)

lemma stepCallback_ok:
  assumes "activeSteps steps \<noteq> []" and "loop_in_range steps st"
  shows "\<exists>st' es. stepCallback steps finished st = (st', es, None)
           \<and> loop_in_range steps st'
           \<and> (loop st \<noteq> Idle \<longrightarrow> loop st' \<noteq> Idle)
           \<and> cleanUpAnimationsSteps st' = cleanUpAnimationsSteps st"
proof (cases "loop st")
  case Idle
  then show ?thesis
    by (simp add: stepCallback_def loop_in_range_def)
next
  case (PlayingStep i)
  let ?N = "length (activeSteps steps)"
  from assms(2) PlayingStep have i: "i < ?N"
    by (simp add: loop_in_range_def)
  from assms(1) have j: "Suc i mod ?N < ?N"
    by simp
  have "perform steps [] = ([], None)"
    by simp
  with PlayingStep i j perform_step [OF j] show ?thesis
    by (simp add: stepCallback_def loop_in_range_def length_createStepAnimations
             del: perform.simps)
next
  case Stopped
  then show ?thesis
    by (simp add: stepCallback_def loop_in_range_def)
qed

lemma unmount_ok:
  assumes "loop_in_range steps st"
  shows "\<exists>st' es. unmount steps st = (st', es, None)
           \<and> loop_in_range steps st'
           \<and> (loop st \<noteq> Idle \<longrightarrow> loop st' \<noteq> Idle)
           \<and> cleanUpAnimationsSteps st' = cleanUpAnimationsSteps st"
proof (cases "loop st")
  case Idle
  then show ?thesis
    by (simp add: unmount_def loop_in_range_def)
next
  case (PlayingStep i)
  with assms have i: "i < length (activeSteps steps)"
    by (simp add: loop_in_range_def)
  with PlayingStep perform_halt [OF i] show ?thesis
    by (simp add: unmount_def loop_in_range_def del: perform.simps)
next
  case Stopped
  then show ?thesis
    by (simp add: unmount_def loop_in_range_def)
qed

lemma lifecycle_ok:
  assumes "activeSteps steps \<noteq> []" and "loop_in_range steps st"
  shows "\<exists>st' es. lifecycle steps st ev = (st', es, None)
           \<and> loop_in_range steps st'
           \<and> (loop st \<noteq> Idle \<longrightarrow> loop st' \<noteq> Idle)
           \<and> (ev = ShowUpComplete True \<longrightarrow> loop st' \<noteq> Idle \<and> cleanUpAnimationsSteps st'
                 \<and> SetCurrentStepIndex 0 \<in> set es)"
proof (cases ev)
  case (ShowUpComplete finished)
  with showUpCallback_ok [OF assms, of finished] show ?thesis
    by (auto simp: lifecycle_def)
next
  case (StepComplete finished)
  with stepCallback_ok [OF assms, of finished] show ?thesis
    by (auto simp: lifecycle_def)
next
  case Unmount
  with unmount_ok [OF assms(2)] show ?thesis
    by (auto simp: lifecycle_def)
qed

lemma run_lifecycle_started:
  assumes "activeSteps steps \<noteq> []"
  shows "loop_in_range steps st \<Longrightarrow>
         \<exists>st' es. run_lifecycle steps st evs = (st', es, None)
           \<and> (loop st \<noteq> Idle \<longrightarrow> loop st' \<noteq> Idle)
           \<and> (ShowUpComplete True \<in> set evs \<longrightarrow>
                 loop st' \<noteq> Idle \<and> SetCurrentStepIndex 0 \<in> set es)"
proof (induction evs arbitrary: st)
  case Nil
  then show ?case by simp
next
  case (Cons ev evs)
  from lifecycle_ok [OF assms Cons.prems, of ev]
  obtain st1 es1 where 1: "lifecycle steps st ev = (st1, es1, None)"
    and r1: "loop_in_range steps st1"
    and k1: "loop st \<noteq> Idle \<longrightarrow> loop st1 \<noteq> Idle"
    and s1: "ev = ShowUpComplete True \<longrightarrow> loop st1 \<noteq> Idle \<and> SetCurrentStepIndex 0 \<in> set es1"
    by blast
  from Cons.IH [OF r1]
  obtain st2 es2 where 2: "run_lifecycle steps st1 evs = (st2, es2, None)"
    and k2: "loop st1 \<noteq> Idle \<longrightarrow> loop st2 \<noteq> Idle"
    and s2: "ShowUpComplete True \<in> set evs \<longrightarrow> loop st2 \<noteq> Idle \<and> SetCurrentStepIndex 0 \<in> set es2"
    by blast
  from 1 2 have "run_lifecycle steps st (ev # evs) = (st2, es1 @ es2, None)"
    by simp
  with k1 k2 s1 s2 show ?case
    by auto
qed

lemma lifecycle_not_started:
  assumes "ev \<noteq> ShowUpComplete True" and "loop st = Idle" and "\<not> cleanUpAnimationsSteps st"
  shows "\<exists>es. lifecycle steps st ev = (st, es, None)
           \<and> set es \<subseteq> {Stop showUpAnimation, Stop showCircleMinAnimation,
                         Stop hideCircleMinAnimation}"
proof (cases ev)
  case (ShowUpComplete finished)
  with assms show ?thesis
    by (simp add: lifecycle_def showUpCallback_def)
next
  case (StepComplete finished)
  from assms(2) have "st\<lparr> loop := Idle \<rparr> = st"
    by simp
  with StepComplete assms show ?thesis
    by (simp add: lifecycle_def stepCallback_def)
next
  case Unmount
  with assms show ?thesis
    by (simp add: lifecycle_def unmount_def)
qed

lemma run_lifecycle_not_started:
  assumes "ShowUpComplete True \<notin> set evs" and "loop st = Idle"
    and "\<not> cleanUpAnimationsSteps st"
  shows "\<exists>es. run_lifecycle steps st evs = (st, es, None)
           \<and> set es \<subseteq> {Stop showUpAnimation, Stop showCircleMinAnimation,
                         Stop hideCircleMinAnimation}"
  using assms(1)
proof (induction evs)
  case Nil
  then show ?case by simp
next
  case (Cons ev evs)
  then have "ev \<noteq> ShowUpComplete True" and rest: "ShowUpComplete True \<notin> set evs"
    by auto
  from lifecycle_not_started [OF this(1) assms(2,3), of steps]
  obtain es1 where 1: "lifecycle steps st ev = (st, es1, None)"
    and e1: "set es1 \<subseteq> {Stop showUpAnimation, Stop showCircleMinAnimation,
                         Stop hideCircleMinAnimation}"
    by blast
  from Cons.IH [OF rest]
  obtain es2 where 2: "run_lifecycle steps st evs = (st, es2, None)"
    and e2: "set es2 \<subseteq> {Stop showUpAnimation, Stop showCircleMinAnimation,
                         Stop hideCircleMinAnimation}"
    by blast
  from 1 2 have "run_lifecycle steps st (ev # evs) = (st, es1 @ es2, None)"
    by simp
  with e1 e2 show ?case
    by auto
qed

text \<open>
  C6. The sequencer is started exactly when the entrance animation completes with
  \<^verbatim>\<open>finished=true\<close>. The completion callback with \<^verbatim>\<open>finished=false\<close> changes nothing and
  has no effect; as long as no completion with \<^verbatim>\<open>finished=true\<close> arrives, whatever else
  happens to the mounted component, the sequencer stays idle, \<^verbatim>\<open>cleanUpAnimationsSteps\<close>
  stays unassigned and the only effects are the three \<^verbatim>\<open>stop\<close> calls of unmounting, so no
  step side effect runs. With at least one active step (a component with none is never
  mounted, since its first render fails), the callback with
  \<^verbatim>\<open>finished=true\<close> starts the sequencer at step 0, running \<^verbatim>\<open>onStepStart(0)\<close> and then
  starting the animation of step 0; and every run of events that contains such a completion
  ends with the sequencer started and \<^verbatim>\<open>onStepStart(0)\<close> performed.
\<close>

theorem sequencer_started_iff_showUp_finished:
  "showUpCallback steps False st = (st, [], None)
   \<and> (ShowUpComplete True \<notin> set evs \<longrightarrow>
        (\<exists>es. run_lifecycle steps (fst mount) evs = (fst mount, es, None)
           \<and> set es \<subseteq> {Stop showUpAnimation, Stop showCircleMinAnimation,
                         Stop hideCircleMinAnimation}))
   \<and> loop (fst mount) = Idle
   \<and> (activeSteps steps \<noteq> [] \<longrightarrow>
        showUpCallback steps True (fst mount) =
          (\<lparr> cleanUpAnimationsSteps = True, loop = PlayingStep 0 \<rparr>,
           fst (onStepStart steps 0) @ [Start (createStepAnimations steps ! 0)], None))
   \<and> (activeSteps steps \<noteq> [] \<and> ShowUpComplete True \<in> set evs \<longrightarrow>
        (\<exists>st' es. run_lifecycle steps (fst mount) evs = (st', es, None)
           \<and> loop st' \<noteq> Idle \<and> SetCurrentStepIndex 0 \<in> set es))"
proof (intro conjI impI)
  show "showUpCallback steps False st = (st, [], None)"
    by (simp add: showUpCallback_def)
  show "loop (fst mount) = Idle"
    by (simp add: mount_def)
next
  assume "ShowUpComplete True \<notin> set evs"
  then show "\<exists>es. run_lifecycle steps (fst mount) evs = (fst mount, es, None)
           \<and> set es \<subseteq> {Stop showUpAnimation, Stop showCircleMinAnimation,
                         Stop hideCircleMinAnimation}"
    by (rule run_lifecycle_not_started) (simp_all add: mount_def)
next
  assume "activeSteps steps \<noteq> []"
  then show "showUpCallback steps True (fst mount) =
          (\<lparr> cleanUpAnimationsSteps = True, loop = PlayingStep 0 \<rparr>,
           fst (onStepStart steps 0) @ [Start (createStepAnimations steps ! 0)], None)"
    by (simp add: showUpCallback_def startAnimationSteps_ok mount_def)
next
  assume h: "activeSteps steps \<noteq> [] \<and> ShowUpComplete True \<in> set evs"
  have "loop_in_range steps (fst mount)"
    by (simp add: loop_in_range_def mount_def)
  with h run_lifecycle_started [of steps "fst mount" evs]
  show "\<exists>st' es. run_lifecycle steps (fst mount) evs = (st', es, None)
           \<and> loop st' \<noteq> Idle \<and> SetCurrentStepIndex 0 \<in> set es"
    by blast
qed

theorem sequencer_started_iff_showUp_finished_witness:
  "ShowUpComplete True \<notin> set [ShowUpComplete False, StepComplete True, Unmount]
   \<and> fst (run_lifecycle ex_steps (fst mount) [ShowUpComplete False, StepComplete True, Unmount])
       = fst mount
   \<and> activeSteps ex_steps \<noteq> []
   \<and> showUpCallback ex_steps True (fst mount) =
          (\<lparr> cleanUpAnimationsSteps = True, loop = PlayingStep 0 \<rparr>,
           [SetCurrentStepIndex 0, PlaySound lauraBreatheIn, Start hideCircleMinAnimation,
            Start (animateStep 1 4000)], None)
   \<and> ShowUpComplete True \<in> set [ShowUpComplete True, StepComplete True]
   \<and> loop (fst (run_lifecycle ex_steps (fst mount) [ShowUpComplete True, StepComplete True]))
       \<noteq> Idle"
proof -
  have a: "ShowUpComplete True \<notin> set [ShowUpComplete False, StepComplete True, Unmount]"
    by simp
  have b: "activeSteps ex_steps \<noteq> []"
    by (simp add: activeSteps_filter ex_defs)
  have c: "ShowUpComplete True \<in> set [ShowUpComplete True, StepComplete True]"
    by simp
  have d: "fst (onStepStart ex_steps 0) @ [Start (createStepAnimations ex_steps ! 0)] =
           [SetCurrentStepIndex 0, PlaySound lauraBreatheIn, Start hideCircleMinAnimation,
            Start (animateStep 1 4000)]"
    by (simp add: onStepStart_def createStepAnimations_def activeSteps_filter array_get_def ex_defs)
  from a sequencer_started_iff_showUp_finished
         [of ex_steps "fst mount" "[ShowUpComplete False, StepComplete True, Unmount]"]
  have 1: "fst (run_lifecycle ex_steps (fst mount) [ShowUpComplete False, StepComplete True, Unmount])
       = fst mount"
    by auto
  from b sequencer_started_iff_showUp_finished [of ex_steps "fst mount" "[]"]
  have 2: "showUpCallback ex_steps True (fst mount) =
          (\<lparr> cleanUpAnimationsSteps = True, loop = PlayingStep 0 \<rparr>,
           fst (onStepStart ex_steps 0) @ [Start (createStepAnimations ex_steps ! 0)], None)"
    by blast
  from b c sequencer_started_iff_showUp_finished
         [of ex_steps "fst mount" "[ShowUpComplete True, StepComplete True]"]
  have 3: "loop (fst (run_lifecycle ex_steps (fst mount) [ShowUpComplete True, StepComplete True]))
       \<noteq> Idle"
    by auto
  from a b c 1 2 3 show ?thesis
    unfolding d by blast
qed

section \<open>Properties of the ticker\<close>

lemma useInterval_same_period:
  "lastInterval h = Some (interval_of q) \<Longrightarrow>
   useInterval cb q h = h\<lparr> callbackRef := Some cb \<rparr>"
  by (simp add: useInterval_def Let_def)

lemma rerender_same_period:
  "lastInterval h = Some d \<Longrightarrow> \<forall>r\<in>set renders. interval_of (snd r) = d \<Longrightarrow>
   rerender renders h =
     (if renders = [] then h else h\<lparr> callbackRef := Some (fst (last renders)) \<rparr>)"
proof (induction renders arbitrary: h)
  case Nil
  then show ?case by (simp add: rerender_def)
next
  case (Cons r renders)
  obtain cb q where r: "r = (cb, q)"
    by (cases r)
  with Cons.prems have q: "lastInterval h = Some (interval_of q)"
    by simp
  have "rerender (r # renders) h = rerender renders (useInterval cb q h)"
    by (simp add: rerender_def r)
  also have "useInterval cb q h = h\<lparr> callbackRef := Some cb \<rparr>"
    using q by (rule useInterval_same_period)
  also have "rerender renders (h\<lparr> callbackRef := Some cb \<rparr>) =
             (if renders = [] then h\<lparr> callbackRef := Some cb \<rparr>
              else h\<lparr> callbackRef := Some cb \<rparr>\<lparr> callbackRef := Some (fst (last renders)) \<rparr>)"
    using Cons.prems by (intro Cons.IH) simp_all
  finally show ?case
    by (simp add: r)
qed

lemma useInterval_mount:
  "useInterval cb p initialHook =
     \<lparr> callbackRef = Some cb, lastInterval = Some (interval_of p), intervalId = Some 0,
       nextId = 1, timerCalls = [SetInterval 0 (interval_of p)] \<rparr>"
  by (simp add: useInterval_def initialHook_def cleanupInterval_def Let_def)

text \<open>
  C2. After the hook is mounted with callback \<open>A\<close>, let the component render again any
  number of times with any callbacks, the last of them \<open>B\<close>, the interval being the same
  in every render. Then a tick invokes \<open>B\<close> and nothing else, the timer registered at
  mount is still the registered one, and \<^verbatim>\<open>setInterval\<close> has been called once and
  \<^verbatim>\<open>clearInterval\<close> never: replacing the callback does not touch the registration. A render
  with a different interval clears that timer and registers a new one (and a tick then
  invokes that render's callback).
\<close>

theorem tick_invokes_latest_callback:
  "\<forall>r\<in>set renders. interval_of (snd r) = interval_of p \<Longrightarrow>
   interval_of q = interval_of p \<Longrightarrow>
   tick (rerender (renders @ [(B, q)]) (useInterval A p initialHook)) = Inr [B]
   \<and> timerCalls (rerender (renders @ [(B, q)]) (useInterval A p initialHook)) =
       [SetInterval 0 (interval_of p)]
   \<and> intervalId (rerender (renders @ [(B, q)]) (useInterval A p initialHook)) = Some 0
   \<and> tick (useInterval A p initialHook) = Inr [A]
   \<and> (interval_of q' \<noteq> interval_of p \<longrightarrow>
        timerCalls (useInterval C q' (rerender (renders @ [(B, q)])
                                        (useInterval A p initialHook))) =
          [SetInterval 0 (interval_of p), ClearInterval 0, SetInterval 1 (interval_of q')]
        \<and> tick (useInterval C q' (rerender (renders @ [(B, q)])
                                     (useInterval A p initialHook))) = Inr [C])"
proof -
  assume same: "\<forall>r\<in>set renders. interval_of (snd r) = interval_of p"
    and q: "interval_of q = interval_of p"
  let ?h0 = "useInterval A p (initialHook :: 'a IntervalHook)"
  let ?h1 = "rerender (renders @ [(B, q)]) ?h0"
  have l: "lastInterval ?h0 = Some (interval_of p)"
    by (simp add: useInterval_mount)
  from same q have "\<forall>r\<in>set (renders @ [(B, q)]). interval_of (snd r) = interval_of p"
    by simp
  from rerender_same_period [OF l this]
  have "?h1 = ?h0\<lparr> callbackRef := Some B \<rparr>"
    by simp
  then have r: "?h1 = \<lparr> callbackRef = Some B, lastInterval = Some (interval_of p),
       intervalId = Some 0, nextId = 1, timerCalls = [SetInterval 0 (interval_of p)] \<rparr>"
    by (simp add: useInterval_mount)
  have 1: "tick ?h1 = Inr [B]"
    unfolding r by (simp add: tick_def call_def)
  have 2: "timerCalls ?h1 = [SetInterval 0 (interval_of p)]"
    unfolding r by simp
  have 3: "intervalId ?h1 = Some 0"
    unfolding r by simp
  have 4: "tick ?h0 = Inr [A]"
    by (simp add: useInterval_mount tick_def call_def)
  have 5: "interval_of q' \<noteq> interval_of p \<longrightarrow>
        timerCalls (useInterval C q' ?h1) =
          [SetInterval 0 (interval_of p), ClearInterval 0, SetInterval 1 (interval_of q')]
        \<and> tick (useInterval C q' ?h1) = Inr [C]"
    unfolding r
    by (simp add: useInterval_def cleanupInterval_def Let_def tick_def call_def)
  from 1 2 3 4 5 show ?thesis
    by blast
qed

theorem tick_invokes_latest_callback_witness:
  "interval_of (Some 1000) = interval_of None
   \<and> tick (rerender ([(''A2'', Some 1000)] @ [(''B'', None)])
             (useInterval ''A'' None initialHook)) = Inr [''B'']
   \<and> timerCalls (rerender ([(''A2'', Some 1000)] @ [(''B'', None)])
                   (useInterval ''A'' None initialHook)) = [SetInterval 0 1000]
   \<and> interval_of (Some 500) \<noteq> interval_of None
   \<and> timerCalls (useInterval ''C'' (Some 500)
                   (rerender ([(''A2'', Some 1000)] @ [(''B'', None)])
                      (useInterval ''A'' None initialHook))) =
       [SetInterval 0 1000, ClearInterval 0, SetInterval 1 500]"
proof -
  have a: "\<forall>r\<in>set [(''A2'', Some 1000)]. interval_of (snd r) = interval_of None"
    by (simp add: interval_of_def)
  have b: "interval_of None = interval_of None"
    by simp
  have c: "interval_of (Some 500) \<noteq> interval_of None"
    by (simp add: interval_of_def)
  from tick_invokes_latest_callback [OF a b, of "''B''" "''A''" "Some 500" "''C''"] c
  show ?thesis
    by (simp add: interval_of_def)
qed

text \<open>
  C10. A tick that finds the callback cell unset, as it is before the first effect has run,
  invokes nothing and does not fail; in every state of the hook a tick either invokes the
  stored callback or, when there is none, nothing, and it never calls the missing value,
  which would raise.
\<close>

theorem tick_unset_is_noop:
  "tick (initialHook :: 'cb IntervalHook) = Inr []
   \<and> tick ((h :: 'cb IntervalHook)\<lparr> callbackRef := None \<rparr>) = Inr []
   \<and> tick h = Inr (case callbackRef h of None \<Rightarrow> [] | Some cb \<Rightarrow> [cb])
   \<and> tick h \<noteq> Inl TypeError
   \<and> call (None :: 'cb option) = Inl TypeError"
  by (auto simp: tick_def call_def initialHook_def split: option.splits)

end
